theory Spec2Isabelle
  imports Main
begin

section \<open>The validation pool of buildbot/validation\_pool.py\<close>

text \<open>
  The module talks to four collaborators: the tree status page (urllib, json), the
  review system (gerrit\_helper), the manifest parser (minidom) and the changes
  themselves (Apply, Submit and the three failure callbacks). None of them is part of
  the module, so the model records every call to them as an event of a trace, and takes
  what they answer from an environment: a record of functions that see the trace so far
  (everything that has happened) and the arguments of the call.
\<close>

subsection \<open>Exceptions, JSON values, events\<close>

text \<open>
  The exceptions the module raises, catches or lets through. In the source they are
  classes without a common parent other than Exception, so none is caught as another.
\<close>

datatype error =
    TreeIsClosedException
  | ApplyPatchException
  | RunCommandError
  | IOError
  | ValueError
  | KeyError
  | TypeError

text \<open>What \<^verbatim>\<open>json.load\<close> returns. Numbers are never inspected by the module.\<close>

datatype json =
    JNull
  | JBool bool
  | JNum int
  | JStr string
  | JArr "json list"
  | JObj "(string \<times> json) list"

text \<open>
  What one \<^verbatim>\<open>urllib.urlopen(status_url)\<close> leads to: the call raises, or it gives
  a response with a status code (\<^verbatim>\<open>getcode()\<close>) and a body that
  \<^verbatim>\<open>json.load\<close> decodes or raises on.
\<close>

datatype http_result =
    UrlopenRaises error
  | Response int "error + json"

datatype GerritHelper = GerritHelper bool

datatype 'c event =
    Urlopen string
  | Sleep int
  | Warn_no_status string
  | Warn_attempts string int
  | New_GerritHelper bool
  | GrabChangesReadyForCommit string
  | FilterProjectsNotInSourceTree "'c list" string
  | Parse_manifest string
  | GrabPatchFromGerrit string string string
  | Apply 'c string bool
  | PrintLink 'c
  | Debug_not_applied
  | Info_did_not_apply 'c
  | HandleCouldNotApply 'c "GerritHelper option" bool
  | Info_will_submit 'c
  | Submit 'c "GerritHelper option" bool
  | HandleCouldNotSubmit 'c "GerritHelper option" bool
  | Info_validation_failed
  | Info_validation_failed_for 'c
  | HandleCouldNotVerify 'c "GerritHelper option" bool

text \<open>
  The environment. \<open>Apply_result\<close> and \<open>Submit_result\<close> are \<open>None\<close> when the
  call returns and \<open>Some e\<close> when it raises \<open>e\<close>. \<open>list_of_set\<close> is the order in
  which Python iterates over a set, which the language leaves open.
\<close>

record 'c env =
  urlopen_result :: "'c event list \<Rightarrow> string \<Rightarrow> http_result"
  GrabChangesReadyForCommit_result :: "'c event list \<Rightarrow> string \<Rightarrow> 'c list"
  FilterProjectsNotInSourceTree_result :: "'c event list \<Rightarrow> 'c list \<Rightarrow> string \<Rightarrow> 'c list"
  pending_commits_result :: "'c event list \<Rightarrow> string \<Rightarrow> (string \<times> string \<times> string) list"
  GrabPatchFromGerrit_result :: "'c event list \<Rightarrow> string \<Rightarrow> string \<Rightarrow> string \<Rightarrow> 'c"
  Apply_result :: "'c event list \<Rightarrow> 'c \<Rightarrow> string \<Rightarrow> error option"
  Submit_result :: "'c event list \<Rightarrow> 'c \<Rightarrow> bool \<Rightarrow> error option"
  list_of_set :: "'c set \<Rightarrow> 'c list"

subsection \<open>ValidationPool\<close>

record 'c ValidationPool =
  changes :: "'c list"
  gerrit_helper :: "GerritHelper option"
  dryrun :: bool

text \<open>
  \<^verbatim>\<open>ValidationPool(...)\<close>: the constructor takes exactly one argument besides self.
  The model gets the positional arguments of the call as a list, and a call with another
  number of arguments raises TypeError, as Python's does. \<open>GLOBAL_DRYRUN\<close> is the class
  attribute, read when the instance is built.
\<close>

definition ValidationPool_init :: "bool \<Rightarrow> bool list \<Rightarrow> error + 'c ValidationPool" where
  "ValidationPool_init GLOBAL_DRYRUN args =
     (case args of
        [d] \<Rightarrow> Inr \<lparr>changes = [], gerrit_helper = None, dryrun = (d \<or> GLOBAL_DRYRUN)\<rparr>
      | _ \<Rightarrow> Inl TypeError)"

subsection \<open>The tree gate: \_IsTreeOpen\<close>

definition max_attempts :: int where
  "max_attempts = 5"

definition status_url :: string where
  "status_url = ''https://chromiumos-status.appspot.com/current?format=json''"

text \<open>\<^verbatim>\<open>range(n)\<close>: the integers from 0 up to n - 1, none when n is not positive.\<close>

definition py_range :: "int \<Rightarrow> int list" where
  "py_range n = map int [0..<nat n]"

definition SleepWithExponentialBackOff :: "int \<Rightarrow> 'c event list \<Rightarrow> int \<times> 'c event list" where
  "SleepWithExponentialBackOff current_sleep t = (current_sleep * 2, t @ [Sleep current_sleep])"

text \<open>
  The \<^verbatim>\<open>for attempt in range(max_attempts)\<close> loop with its \<^verbatim>\<open>try\<close>. It ends with
  \<open>Inr (Some (attempt, response_dict))\<close> at the \<^verbatim>\<open>break\<close>, with \<open>Inr None\<close> when the
  range is used up (the loop's \<^verbatim>\<open>else\<close>), and with \<open>Inl e\<close> when an exception other
  than IOError leaves the \<^verbatim>\<open>try\<close>.
\<close>

fun IsTreeOpen_loop ::
  "'c env \<Rightarrow> int list \<Rightarrow> int \<Rightarrow> 'c event list \<Rightarrow> (error + (int \<times> json) option) \<times> 'c event list" where
  "IsTreeOpen_loop env [] current_sleep t = (Inr None, t)"
| "IsTreeOpen_loop env (attempt # rest) current_sleep t =
     (let t1 = t @ [Urlopen status_url] in
      case urlopen_result env t status_url of
        UrlopenRaises e \<Rightarrow>
          if e = IOError
          then IsTreeOpen_loop env rest (fst (SleepWithExponentialBackOff current_sleep t1))
                 (snd (SleepWithExponentialBackOff current_sleep t1))
          else (Inl e, t1)
      | Response code body \<Rightarrow>
          if code = 200 then
            (case body of
               Inr response_dict \<Rightarrow> (Inr (Some (attempt, response_dict)), t1)
             | Inl e \<Rightarrow>
                 if e = IOError
                 then IsTreeOpen_loop env rest (fst (SleepWithExponentialBackOff current_sleep t1))
                        (snd (SleepWithExponentialBackOff current_sleep t1))
                 else (Inl e, t1))
          else IsTreeOpen_loop env rest (fst (SleepWithExponentialBackOff current_sleep t1))
                 (snd (SleepWithExponentialBackOff current_sleep t1)))"

text \<open>
  \<^verbatim>\<open>d[key]\<close> on a decoded body: KeyError when a dict lacks the key, TypeError when
  the body is not a dict. A key given twice in the document keeps its last value.
\<close>

definition subscript :: "json \<Rightarrow> string \<Rightarrow> error + json" where
  "subscript d k =
     (case d of
        JObj kvs \<Rightarrow> (case map_of (rev kvs) k of None \<Rightarrow> Inl KeyError | Some v \<Rightarrow> Inr v)
      | _ \<Rightarrow> Inl TypeError)"

definition IsTreeOpen :: "'c env \<Rightarrow> 'c event list \<Rightarrow> (error + bool) \<times> 'c event list" where
  "IsTreeOpen env t =
     (case IsTreeOpen_loop env (py_range max_attempts) 1 t of
        (Inl e, t1) \<Rightarrow> (Inl e, t1)
      | (Inr None, t1) \<Rightarrow> (Inr True, t1 @ [Warn_no_status status_url])
      | (Inr (Some (attempt, response_dict)), t1) \<Rightarrow>
          (let t2 = (if attempt > 1 then t1 @ [Warn_attempts status_url attempt] else t1) in
           case subscript response_dict ''general_state'' of
             Inl e \<Rightarrow> (Inl e, t2)
           | Inr general_state \<Rightarrow>
               (Inr (general_state = JStr ''open'' \<or> general_state = JStr ''throttled''), t2)))"

subsection \<open>Acquisition\<close>

definition AcquirePool ::
  "'c env \<Rightarrow> bool \<Rightarrow> string \<Rightarrow> bool \<Rightarrow> string \<Rightarrow> bool \<Rightarrow> 'c event list
     \<Rightarrow> (error + 'c ValidationPool) \<times> 'c event list" where
  "AcquirePool env GLOBAL_DRYRUN branch internal buildroot d t =
     (case IsTreeOpen env t of
        (Inl e, t1) \<Rightarrow> (Inl e, t1)
      | (Inr True, t1) \<Rightarrow>
          (case ValidationPool_init GLOBAL_DRYRUN [d] of
             Inl e \<Rightarrow> (Inl e, t1)
           | Inr pool \<Rightarrow>
               (let pool1 = pool\<lparr>gerrit_helper := Some (GerritHelper internal)\<rparr>;
                    t2 = t1 @ [New_GerritHelper internal];
                    raw_changes = GrabChangesReadyForCommit_result env t2 branch;
                    t3 = t2 @ [GrabChangesReadyForCommit branch];
                    filtered = FilterProjectsNotInSourceTree_result env t3 raw_changes buildroot;
                    t4 = t3 @ [FilterProjectsNotInSourceTree raw_changes buildroot]
                in (Inr (pool1\<lparr>changes := filtered\<rparr>), t4)))
      | (Inr False, t1) \<Rightarrow> (Inl TreeIsClosedException, t1))"

text \<open>The loop of AcquirePoolFromManifest over the manifest's pending commits.\<close>

fun pending_commits_loop ::
  "'c env \<Rightarrow> 'c ValidationPool \<Rightarrow> (string \<times> string \<times> string) list \<Rightarrow> 'c event list
     \<Rightarrow> 'c ValidationPool \<times> 'c event list" where
  "pending_commits_loop env pool [] t = (pool, t)"
| "pending_commits_loop env pool ((project, change, commit) # rest) t =
     pending_commits_loop env
       (pool\<lparr>changes := changes pool @ [GrabPatchFromGerrit_result env t project change commit]\<rparr>)
       rest (t @ [GrabPatchFromGerrit project change commit])"

text \<open>
  AcquirePoolFromManifest builds its pool with \<^verbatim>\<open>ValidationPool()\<close>: no argument.
  The element and attribute names of the manifest come from lkgm\_manager, which is not
  part of the module; the environment gives the (project, change, commit) triples of
  the parsed manifest.
\<close>

definition AcquirePoolFromManifest ::
  "'c env \<Rightarrow> bool \<Rightarrow> string \<Rightarrow> bool \<Rightarrow> 'c event list
     \<Rightarrow> (error + 'c ValidationPool) \<times> 'c event list" where
  "AcquirePoolFromManifest env GLOBAL_DRYRUN manifest internal t =
     (case ValidationPool_init GLOBAL_DRYRUN [] of
        Inl e \<Rightarrow> (Inl e, t)
      | Inr pool \<Rightarrow>
          (let pool1 = pool\<lparr>gerrit_helper := Some (GerritHelper internal)\<rparr>;
               t1 = t @ [New_GerritHelper internal];
               pending_commits = pending_commits_result env t1 manifest;
               t2 = t1 @ [Parse_manifest manifest]
           in case pending_commits_loop env pool1 pending_commits t2 of
                (pool2, t3) \<Rightarrow> (Inr pool2, t3)))"

subsection \<open>The apply phase\<close>

text \<open>
  The loop of ApplyPoolIntoRepo: ApplyPatchException is caught and the change collected,
  any other exception leaves the method.
\<close>

fun Apply_loop ::
  "'c env \<Rightarrow> string \<Rightarrow> 'c list \<Rightarrow> 'c list \<Rightarrow> 'c event list \<Rightarrow> (error + 'c list) \<times> 'c event list" where
  "Apply_loop env directory [] non_applied_changes t = (Inr non_applied_changes, t)"
| "Apply_loop env directory (change # rest) non_applied_changes t =
     (let t1 = t @ [Apply change directory True] in
      case Apply_result env t change directory of
        None \<Rightarrow> Apply_loop env directory rest non_applied_changes (t1 @ [PrintLink change])
      | Some e \<Rightarrow>
          if e = ApplyPatchException
          then Apply_loop env directory rest (non_applied_changes @ [change]) t1
          else (Inl e, t1))"

fun HandleApplicationFailure :: "'c ValidationPool \<Rightarrow> 'c list \<Rightarrow> 'c event list \<Rightarrow> 'c event list" where
  "HandleApplicationFailure pool [] t = t"
| "HandleApplicationFailure pool (change # rest) t =
     HandleApplicationFailure pool rest
       (t @ [Info_did_not_apply change,
             HandleCouldNotApply change (gerrit_helper pool) (dryrun pool)])"

text \<open>The method returns its result, the pool as it has left it, and the trace.\<close>

definition ApplyPoolIntoRepo ::
  "'c env \<Rightarrow> 'c ValidationPool \<Rightarrow> string \<Rightarrow> 'c event list
     \<Rightarrow> (error + bool) \<times> 'c ValidationPool \<times> 'c event list" where
  "ApplyPoolIntoRepo env pool directory t =
     (case Apply_loop env directory (changes pool) [] t of
        (Inl e, t1) \<Rightarrow> (Inl e, pool, t1)
      | (Inr non_applied_changes, t1) \<Rightarrow>
          (if non_applied_changes \<noteq> [] then
             (let t2 = HandleApplicationFailure pool non_applied_changes (t1 @ [Debug_not_applied]);
                  pool1 = pool\<lparr>changes :=
                            list_of_set env (set (changes pool) - set non_applied_changes)\<rparr>
              in (Inr (length (changes pool1) > 0), pool1, t2))
           else (Inr (length (changes pool) > 0), pool, t1)))"

subsection \<open>The submit phase\<close>

text \<open>
  The loop of SubmitPool. Its body ends with \<^verbatim>\<open>return True\<close>, so the changes after the
  first are never reached; a loop over no change falls through, and the method returns
  None (\<open>Inr None\<close> here, \<open>Inr (Some b)\<close> for a returned boolean).
\<close>

fun Submit_loop ::
  "'c env \<Rightarrow> 'c ValidationPool \<Rightarrow> 'c list \<Rightarrow> 'c event list \<Rightarrow> (error + bool option) \<times> 'c event list" where
  "Submit_loop env pool [] t = (Inr None, t)"
| "Submit_loop env pool (change # rest) t =
     (let t1 = t @ [Info_will_submit change];
          t2 = t1 @ [Submit change (gerrit_helper pool) (dryrun pool)] in
      case Submit_result env t1 change (dryrun pool) of
        None \<Rightarrow> (Inr (Some True), t2)
      | Some e \<Rightarrow>
          if e = RunCommandError
          then (Inr (Some True),
                t2 @ [HandleCouldNotSubmit change (gerrit_helper pool) (dryrun pool)])
          else (Inl e, t2))"

definition SubmitPool ::
  "'c env \<Rightarrow> 'c ValidationPool \<Rightarrow> 'c event list
     \<Rightarrow> (error + bool option) \<times> 'c ValidationPool \<times> 'c event list" where
  "SubmitPool env pool t =
     (case IsTreeOpen env t of
        (Inl e, t1) \<Rightarrow> (Inl e, pool, t1)
      | (Inr True, t1) \<Rightarrow>
          (case Submit_loop env pool (changes pool) t1 of (r, t2) \<Rightarrow> (r, pool, t2))
      | (Inr False, t1) \<Rightarrow> (Inl TreeIsClosedException, pool, t1))"

fun HandleValidationFailure_loop :: "'c ValidationPool \<Rightarrow> 'c list \<Rightarrow> 'c event list \<Rightarrow> 'c event list" where
  "HandleValidationFailure_loop pool [] t = t"
| "HandleValidationFailure_loop pool (change # rest) t =
     HandleValidationFailure_loop pool rest
       (t @ [Info_validation_failed_for change,
             HandleCouldNotVerify change (gerrit_helper pool) (dryrun pool)])"

definition HandleValidationFailure :: "'c ValidationPool \<Rightarrow> 'c event list \<Rightarrow> 'c event list" where
  "HandleValidationFailure pool t =
     HandleValidationFailure_loop pool (changes pool) (t @ [Info_validation_failed])"

subsection \<open>Reading a trace\<close>

text \<open>What the theorems below read off a trace: the calls of one kind, in order.\<close>

definition Urlopen_calls :: "'c event list \<Rightarrow> string list" where
  "Urlopen_calls t = concat (map (\<lambda>e. case e of Urlopen u \<Rightarrow> [u] | _ \<Rightarrow> []) t)"

definition Sleep_calls :: "'c event list \<Rightarrow> int list" where
  "Sleep_calls t = concat (map (\<lambda>e. case e of Sleep s \<Rightarrow> [s] | _ \<Rightarrow> []) t)"

definition Apply_calls :: "'c event list \<Rightarrow> 'c list" where
  "Apply_calls t = concat (map (\<lambda>e. case e of Apply c d b \<Rightarrow> [c] | _ \<Rightarrow> []) t)"

definition HandleCouldNotApply_calls :: "'c event list \<Rightarrow> 'c list" where
  "HandleCouldNotApply_calls t =
     concat (map (\<lambda>e. case e of HandleCouldNotApply c h b \<Rightarrow> [c] | _ \<Rightarrow> []) t)"

definition Submit_calls :: "'c event list \<Rightarrow> 'c list" where
  "Submit_calls t = concat (map (\<lambda>e. case e of Submit c h b \<Rightarrow> [c] | _ \<Rightarrow> []) t)"

definition HandleCouldNotSubmit_calls :: "'c event list \<Rightarrow> 'c list" where
  "HandleCouldNotSubmit_calls t =
     concat (map (\<lambda>e. case e of HandleCouldNotSubmit c h b \<Rightarrow> [c] | _ \<Rightarrow> []) t)"

definition HandleCouldNotVerify_calls :: "'c event list \<Rightarrow> 'c list" where
  "HandleCouldNotVerify_calls t =
     concat (map (\<lambda>e. case e of HandleCouldNotVerify c h b \<Rightarrow> [c] | _ \<Rightarrow> []) t)"

text \<open>The calls that reach the review system to build a pool (the change source).\<close>

definition ChangeSource_calls :: "'c event list \<Rightarrow> 'c event list" where
  "ChangeSource_calls t =
     concat (map (\<lambda>e. case e of
                         New_GerritHelper i \<Rightarrow> [e]
                       | GrabChangesReadyForCommit b \<Rightarrow> [e]
                       | FilterProjectsNotInSourceTree cs r \<Rightarrow> [e]
                       | GrabPatchFromGerrit p c k \<Rightarrow> [e]
                       | _ \<Rightarrow> []) t)"

text \<open>The events the tree gate produces: requests, sleeps and its two warnings.\<close>

definition gate_event :: "'c event \<Rightarrow> bool" where
  "gate_event e =
     (case e of
        Urlopen u \<Rightarrow> True
      | Sleep s \<Rightarrow> True
      | Warn_no_status u \<Rightarrow> True
      | Warn_attempts u n \<Rightarrow> True
      | _ \<Rightarrow> False)"

text \<open>
  An attempt of the gate that leads to a sleep and another attempt: the request raises
  IOError, or the status code is not 200, or reading the body raises IOError.
\<close>

definition attempt_fails :: "http_result \<Rightarrow> bool" where
  "attempt_fails r =
     (case r of
        UrlopenRaises e \<Rightarrow> e = IOError
      | Response code body \<Rightarrow> code \<noteq> 200 \<or> body = Inl IOError)"

text \<open>
  The trace of \<open>n\<close> failed attempts in a row, the first sleep lasting \<open>s\<close>: request,
  sleep \<open>s\<close>, request, sleep \<open>2 * s\<close>, and so on.
\<close>

definition backoff_trace :: "int \<Rightarrow> nat \<Rightarrow> 'c event list" where
  "backoff_trace s n = concat (map (\<lambda>j. [Urlopen status_url, Sleep (s * 2 ^ j)]) [0..<n])"

text \<open>
  What the module relies on when it turns a set into a list: every element once.
\<close>

definition set_order_ok :: "('c set \<Rightarrow> 'c list) \<Rightarrow> bool" where
  "set_order_ok f = (\<forall>S. finite S \<longrightarrow> set (f S) = S \<and> distinct (f S))"

subsection \<open>Environments to run the model in\<close>

text \<open>
  Changes are numbers here. The status page answers with the given state at once; the
  review system has changes 1, 2 and 3 ready; change 2 does not apply; every submit
  succeeds; a set is listed in ascending order.
\<close>

definition status_page :: "string \<Rightarrow> http_result" where
  "status_page state = Response 200 (Inr (JObj [(''general_state'', JStr state)]))"

definition env_reporting :: "string \<Rightarrow> nat env" where
  "env_reporting state =
     \<lparr>urlopen_result = (\<lambda>t u. status_page state),
      GrabChangesReadyForCommit_result = (\<lambda>t b. [1, 2, 3]),
      FilterProjectsNotInSourceTree_result = (\<lambda>t cs r. cs),
      pending_commits_result = (\<lambda>t m. [(''chromite'', ''I1'', ''abc''), (''kernel'', ''I2'', ''def'')]),
      GrabPatchFromGerrit_result = (\<lambda>t p c k. length c),
      Apply_result = (\<lambda>t c d. if c = 2 then Some ApplyPatchException else None),
      Submit_result = (\<lambda>t c b. None),
      list_of_set = sorted_list_of_set\<rparr>"

text \<open>The status page cannot be reached.\<close>

definition env_unreachable :: "nat env" where
  "env_unreachable = (env_reporting ''open'')\<lparr>urlopen_result := (\<lambda>t u. UrlopenRaises IOError)\<rparr>"

text \<open>The first three requests get status 503, the fourth the given state.\<close>

definition env_flaky :: "string \<Rightarrow> nat env" where
  "env_flaky state =
     (env_reporting state)\<lparr>urlopen_result :=
        (\<lambda>t u. if length (Urlopen_calls t) < 3 then Response 503 (Inl ValueError)
                else status_page state)\<rparr>"

text \<open>
  The first four requests raise IOError; the fifth gets status 200 with a body that is
  not JSON, so that \<^verbatim>\<open>json.load\<close> raises ValueError.
\<close>

definition env_late_bad :: "nat env" where
  "env_late_bad =
     (env_reporting ''open'')\<lparr>urlopen_result :=
        (\<lambda>t u. if length (Urlopen_calls t) < 4 then UrlopenRaises IOError
                else Response 200 (Inl ValueError))\<rparr>"

text \<open>The tree is open at the first request and closed from then on.\<close>

definition env_closing :: "nat env" where
  "env_closing =
     (env_reporting ''open'')\<lparr>urlopen_result :=
        (\<lambda>t u. if Urlopen_calls t = [] then status_page ''open'' else status_page ''closed'')\<rparr>"

text \<open>Every submit fails with RunCommandError.\<close>

definition env_submit_fails :: "nat env" where
  "env_submit_fails = (env_reporting ''open'')\<lparr>Submit_result := (\<lambda>t c b. Some RunCommandError)\<rparr>"

text \<open>A set is listed in descending order.\<close>

definition env_descending :: "nat env" where
  "env_descending = (env_reporting ''open'')\<lparr>list_of_set := (\<lambda>S. rev (sorted_list_of_set S))\<rparr>"

definition pool_of :: "nat list \<Rightarrow> nat ValidationPool" where
  "pool_of cs = \<lparr>changes = cs, gerrit_helper = Some (GerritHelper False), dryrun = False\<rparr>"

section \<open>Properties\<close>

subsection \<open>The retry loop of the tree gate\<close>

lemma backoff_trace_0: "backoff_trace s 0 = []"
  by (simp add: backoff_trace_def)

lemma backoff_trace_Suc:
  "backoff_trace s (Suc n) = [Urlopen status_url, Sleep s] @ backoff_trace (s * 2) n"
proof -
  have "[0..<Suc n] = 0 # map Suc [0..<n]"
    by (simp add: upt_conv_Cons map_Suc_upt del: upt_Suc)
  then show ?thesis
    by (simp add: backoff_trace_def comp_def mult.assoc del: upt_Suc)
qed

lemma loop_fail_step:
  "attempt_fails (urlopen_result env t status_url) \<Longrightarrow>
   IsTreeOpen_loop env (a # as) s t =
   IsTreeOpen_loop env as (s * 2) (t @ [Urlopen status_url, Sleep s])"
  by (auto simp: attempt_fails_def SleepWithExponentialBackOff_def Let_def
      split: http_result.splits sum.splits)

lemma loop_fails:
  "k \<le> length as \<Longrightarrow>
   \<forall>j<k. attempt_fails (urlopen_result env (t @ backoff_trace s j) status_url) \<Longrightarrow>
   IsTreeOpen_loop env as s t =
   IsTreeOpen_loop env (drop k as) (s * 2 ^ k) (t @ backoff_trace s k)"
proof (induction k arbitrary: as s t)
  case 0
  then show ?case by (simp add: backoff_trace_0)
next
  case (Suc k)
  from Suc.prems(1) obtain a as' where as: "as = a # as'" and len: "k \<le> length as'"
    by (cases as) auto
  from Suc.prems(2) have first: "attempt_fails (urlopen_result env t status_url)"
    using backoff_trace_0[of s] by (metis append_Nil2 zero_less_Suc)
  have later: "\<forall>j<k. attempt_fails
      (urlopen_result env ((t @ [Urlopen status_url, Sleep s]) @ backoff_trace (s * 2) j) status_url)"
  proof (intro allI impI)
    fix j assume "j < k"
    then have "attempt_fails (urlopen_result env (t @ backoff_trace s (Suc j)) status_url)"
      using Suc.prems(2) by simp
    then show "attempt_fails
      (urlopen_result env ((t @ [Urlopen status_url, Sleep s]) @ backoff_trace (s * 2) j) status_url)"
      by (simp add: backoff_trace_Suc)
  qed
  show ?case
    using Suc.IH[OF len later]
    by (simp add: as loop_fail_step[OF first] backoff_trace_Suc mult.assoc
        del: IsTreeOpen_loop.simps)
qed

lemma Sleep_calls_backoff: "Sleep_calls (backoff_trace s n) = map (\<lambda>j. s * 2 ^ j) [0..<n]"
  by (induction n) (simp_all add: backoff_trace_def Sleep_calls_def)

lemma Urlopen_calls_backoff: "Urlopen_calls (backoff_trace s n) = replicate n status_url"
  by (induction n) (simp_all add: backoff_trace_def Urlopen_calls_def replicate_append_same)

lemma gate_backoff: "list_all gate_event (backoff_trace s n)"
  by (induction n) (simp_all add: backoff_trace_def gate_event_def)

text \<open>
  The trace of the loop, whatever the status page does: some failed attempts with their
  sleeps, then at most one more request (the one that ended the loop).
\<close>

lemma loop_shape:
  "\<exists>k tail. k \<le> length as \<and> snd (IsTreeOpen_loop env as s t) = t @ backoff_trace s k @ tail \<and>
      (tail = [] \<or> (tail = [Urlopen status_url] \<and> k < length as)) \<and>
      (fst (IsTreeOpen_loop env as s t) = Inr None \<longrightarrow> k = length as \<and> tail = [])"
proof (induction as arbitrary: s t)
  case Nil
  show ?case by (rule exI[of _ 0]) (simp add: backoff_trace_0)
next
  case (Cons a as)
  show ?case
  proof (cases "attempt_fails (urlopen_result env t status_url)")
    case True
    from Cons.IH[of "s * 2" "t @ [Urlopen status_url, Sleep s]"]
    obtain k tail where k: "k \<le> length as"
      and sh: "snd (IsTreeOpen_loop env as (s * 2) (t @ [Urlopen status_url, Sleep s])) =
               (t @ [Urlopen status_url, Sleep s]) @ backoff_trace (s * 2) k @ tail"
      and tl: "tail = [] \<or> (tail = [Urlopen status_url] \<and> k < length as)"
      and ex: "fst (IsTreeOpen_loop env as (s * 2) (t @ [Urlopen status_url, Sleep s])) = Inr None
               \<longrightarrow> k = length as \<and> tail = []"
      by blast
    show ?thesis
      apply (rule exI[of _ "Suc k"], rule exI[of _ tail])
      using k sh tl ex by (auto simp: loop_fail_step[OF True] backoff_trace_Suc
          simp del: IsTreeOpen_loop.simps)
  next
    case False
    then have "snd (IsTreeOpen_loop env (a # as) s t) = t @ [Urlopen status_url]"
      and "fst (IsTreeOpen_loop env (a # as) s t) \<noteq> Inr None"
      by (auto simp: attempt_fails_def Let_def split: http_result.splits sum.splits)
    then show ?thesis
      by (intro exI[of _ 0] exI[of _ "[Urlopen status_url]"]) (simp add: backoff_trace_0)
  qed
qed

lemma py_range_max_attempts: "py_range max_attempts = [0, 1, 2, 3, 4]"
  by (simp add: py_range_def max_attempts_def upt_conv_Cons)

lemma drop_py_range:
  "k < 5 \<Longrightarrow> drop k (py_range max_attempts) = int k # drop (Suc k) (py_range max_attempts)"
proof -
  assume "k < 5"
  then have "k = 0 \<or> k = 1 \<or> k = 2 \<or> k = 3 \<or> k = 4" by arith
  then show ?thesis by (auto simp: py_range_max_attempts)
qed

lemma loop_all_fail:
  assumes "\<forall>j<5. attempt_fails (urlopen_result env (t @ backoff_trace 1 j) status_url)"
  shows "IsTreeOpen_loop env (py_range max_attempts) 1 t = (Inr None, t @ backoff_trace 1 5)"
  using loop_fails[of 5 "py_range max_attempts" env t 1] assms
  by (simp add: py_range_max_attempts)

lemma loop_answer:
  assumes "k < 5"
    and "\<forall>j<k. attempt_fails (urlopen_result env (t @ backoff_trace 1 j) status_url)"
    and "urlopen_result env (t @ backoff_trace 1 k) status_url = Response 200 (Inr d)"
  shows "IsTreeOpen_loop env (py_range max_attempts) 1 t =
           (Inr (Some (int k, d)), t @ backoff_trace 1 k @ [Urlopen status_url])"
proof -
  have "k \<le> length (py_range max_attempts)"
    using assms(1) by (simp add: py_range_max_attempts)
  from loop_fails[OF this, of env t 1] assms(2)
  have "IsTreeOpen_loop env (py_range max_attempts) 1 t =
        IsTreeOpen_loop env (drop k (py_range max_attempts)) (1 * 2 ^ k) (t @ backoff_trace 1 k)"
    by blast
  then show ?thesis
    using assms(3) by (simp add: drop_py_range[OF assms(1)] Let_def)
qed

lemma IsTreeOpen_all_fail:
  assumes "\<forall>j<5. attempt_fails (urlopen_result env (t @ backoff_trace 1 j) status_url)"
  shows "IsTreeOpen env t = (Inr True, t @ backoff_trace 1 5 @ [Warn_no_status status_url])"
  by (simp add: IsTreeOpen_def loop_all_fail[OF assms])

lemma IsTreeOpen_answer:
  assumes "k < 5"
    and "\<forall>j<k. attempt_fails (urlopen_result env (t @ backoff_trace 1 j) status_url)"
    and "urlopen_result env (t @ backoff_trace 1 k) status_url = Response 200 (Inr d)"
    and "subscript d ''general_state'' = Inr v"
  shows "IsTreeOpen env t =
           (Inr (v = JStr ''open'' \<or> v = JStr ''throttled''),
            t @ backoff_trace 1 k @ [Urlopen status_url] @
              (if k > 1 then [Warn_attempts status_url (int k)] else []))"
  using assms(4) by (simp add: IsTreeOpen_def loop_answer[OF assms(1,2,3)])

subsection \<open>Calls in a trace\<close>

lemma calls_Nil:
  "Urlopen_calls [] = []" "Sleep_calls [] = []" "Apply_calls [] = []"
  "HandleCouldNotApply_calls [] = []" "Submit_calls [] = []"
  "HandleCouldNotSubmit_calls [] = []" "ChangeSource_calls [] = []"
  by (simp_all add: Urlopen_calls_def Sleep_calls_def Apply_calls_def
      HandleCouldNotApply_calls_def Submit_calls_def HandleCouldNotSubmit_calls_def
      ChangeSource_calls_def)

lemma calls_append:
  "Urlopen_calls (t @ u) = Urlopen_calls t @ Urlopen_calls u"
  "Sleep_calls (t @ u) = Sleep_calls t @ Sleep_calls u"
  "Apply_calls (t @ u) = Apply_calls t @ Apply_calls u"
  "HandleCouldNotApply_calls (t @ u) = HandleCouldNotApply_calls t @ HandleCouldNotApply_calls u"
  "Submit_calls (t @ u) = Submit_calls t @ Submit_calls u"
  "HandleCouldNotSubmit_calls (t @ u) = HandleCouldNotSubmit_calls t @ HandleCouldNotSubmit_calls u"
  "ChangeSource_calls (t @ u) = ChangeSource_calls t @ ChangeSource_calls u"
  by (simp_all add: Urlopen_calls_def Sleep_calls_def Apply_calls_def
      HandleCouldNotApply_calls_def Submit_calls_def HandleCouldNotSubmit_calls_def
      ChangeSource_calls_def)

lemma calls_Cons:
  "Urlopen_calls (e # t) = (case e of Urlopen u \<Rightarrow> [u] | _ \<Rightarrow> []) @ Urlopen_calls t"
  "Sleep_calls (e # t) = (case e of Sleep s \<Rightarrow> [s] | _ \<Rightarrow> []) @ Sleep_calls t"
  "Apply_calls (e # t) = (case e of Apply c d b \<Rightarrow> [c] | _ \<Rightarrow> []) @ Apply_calls t"
  "HandleCouldNotApply_calls (e # t) =
     (case e of HandleCouldNotApply c h b \<Rightarrow> [c] | _ \<Rightarrow> []) @ HandleCouldNotApply_calls t"
  "Submit_calls (e # t) = (case e of Submit c h b \<Rightarrow> [c] | _ \<Rightarrow> []) @ Submit_calls t"
  "HandleCouldNotSubmit_calls (e # t) =
     (case e of HandleCouldNotSubmit c h b \<Rightarrow> [c] | _ \<Rightarrow> []) @ HandleCouldNotSubmit_calls t"
  by (simp_all add: Urlopen_calls_def Sleep_calls_def Apply_calls_def
      HandleCouldNotApply_calls_def Submit_calls_def HandleCouldNotSubmit_calls_def)

lemma ChangeSource_calls_gate:
  "gate_event e \<Longrightarrow> ChangeSource_calls (e # t) = ChangeSource_calls t"
  by (cases e) (simp_all add: ChangeSource_calls_def gate_event_def)

lemma gate_event_no_calls:
  assumes "list_all gate_event u"
  shows "ChangeSource_calls u = []" and "Submit_calls u = []"
    and "HandleCouldNotSubmit_calls u = []" and "Apply_calls u = []"
    and "HandleCouldNotApply_calls u = []"
proof -
  show "ChangeSource_calls u = []"
    using assms by (induction u) (simp_all add: calls_Nil ChangeSource_calls_gate)
  have no: "\<And>e. gate_event e \<Longrightarrow>
      (case e of Submit c h b \<Rightarrow> [c] | _ \<Rightarrow> []) = [] \<and>
      (case e of HandleCouldNotSubmit c h b \<Rightarrow> [c] | _ \<Rightarrow> []) = [] \<and>
      (case e of Apply c d b \<Rightarrow> [c] | _ \<Rightarrow> []) = [] \<and>
      (case e of HandleCouldNotApply c h b \<Rightarrow> [c] | _ \<Rightarrow> []) = []"
    subgoal for e by (cases e) (simp_all add: gate_event_def)
    done
  show "Submit_calls u = []"
    using assms by (induction u) (simp_all add: calls_Nil calls_Cons no)
  show "HandleCouldNotSubmit_calls u = []"
    using assms by (induction u) (simp_all add: calls_Nil calls_Cons no)
  show "Apply_calls u = []"
    using assms by (induction u) (simp_all add: calls_Nil calls_Cons no)
  show "HandleCouldNotApply_calls u = []"
    using assms by (induction u) (simp_all add: calls_Nil calls_Cons no)
qed

text \<open>What the gate adds to the trace, whatever the status page does.\<close>

lemma IsTreeOpen_after_loop:
  assumes "IsTreeOpen_loop env (py_range max_attempts) 1 t = (r, t1)"
  shows "snd (IsTreeOpen env t) = t1 \<or>
         snd (IsTreeOpen env t) = t1 @ [Warn_no_status status_url] \<and> r = Inr None \<or>
         (\<exists>n. snd (IsTreeOpen env t) = t1 @ [Warn_attempts status_url n])"
  by (cases r) (auto simp: IsTreeOpen_def assms Let_def split: option.splits sum.splits)

lemma IsTreeOpen_shape:
  "\<exists>k tail. k \<le> 5 \<and> snd (IsTreeOpen env t) = t @ backoff_trace 1 k @ tail \<and>
      list_all gate_event tail \<and> Sleep_calls tail = [] \<and>
      length (Urlopen_calls tail) \<le> 5 - k"
proof -
  obtain k tail where k: "k \<le> length (py_range max_attempts)"
    and sh: "snd (IsTreeOpen_loop env (py_range max_attempts) 1 t) = t @ backoff_trace 1 k @ tail"
    and tl: "tail = [] \<or> (tail = [Urlopen status_url] \<and> k < length (py_range max_attempts))"
    using loop_shape[of "py_range max_attempts" env 1 t] by blast
  have len: "length (py_range max_attempts) = 5"
    by (simp add: py_range_max_attempts)
  obtain r t1 where run: "IsTreeOpen_loop env (py_range max_attempts) 1 t = (r, t1)"
    by (cases "IsTreeOpen_loop env (py_range max_attempts) 1 t")
  have t1: "t1 = t @ backoff_trace 1 k @ tail" using sh run by simp
  have "\<exists>w. snd (IsTreeOpen env t) = t1 @ w \<and> list_all gate_event w \<and> Sleep_calls w = [] \<and>
             Urlopen_calls w = []"
    using IsTreeOpen_after_loop[OF run]
    by (auto simp: gate_event_def calls_Nil calls_Cons)
  then obtain w where w: "snd (IsTreeOpen env t) = t1 @ w" "list_all gate_event w"
    "Sleep_calls w = []" "Urlopen_calls w = []" by blast
  have "k \<le> 5" using k len by simp
  moreover have "snd (IsTreeOpen env t) = t @ backoff_trace 1 k @ (tail @ w)"
    using w(1) t1 by simp
  moreover have "list_all gate_event (tail @ w)"
    using tl w(2) by (auto simp: gate_event_def)
  moreover have "Sleep_calls (tail @ w) = []"
    using tl w(3) by (auto simp: calls_append calls_Nil calls_Cons)
  moreover have "length (Urlopen_calls (tail @ w)) \<le> 5 - k"
    using tl w(4) len by (auto simp: calls_append calls_Nil calls_Cons)
  ultimately show ?thesis by blast
qed

lemma IsTreeOpen_gate_only:
  "\<exists>new. snd (IsTreeOpen env t) = t @ new \<and> list_all gate_event new"
proof -
  obtain k tail where "snd (IsTreeOpen env t) = t @ backoff_trace 1 k @ tail"
    "list_all gate_event tail"
    using IsTreeOpen_shape[of env t] by blast
  then show ?thesis
    using gate_backoff[of 1 k] by (intro exI[of _ "backoff_trace 1 k @ tail"]) simp
qed

lemma IsTreeOpen_no_calls:
  "ChangeSource_calls (snd (IsTreeOpen env t)) = ChangeSource_calls t"
  "Submit_calls (snd (IsTreeOpen env t)) = Submit_calls t"
  "HandleCouldNotSubmit_calls (snd (IsTreeOpen env t)) = HandleCouldNotSubmit_calls t"
proof -
  obtain new where new: "snd (IsTreeOpen env t) = t @ new" "list_all gate_event new"
    using IsTreeOpen_gate_only[of env t] by blast
  show "ChangeSource_calls (snd (IsTreeOpen env t)) = ChangeSource_calls t"
    by (simp add: new(1) calls_append gate_event_no_calls[OF new(2)])
  show "Submit_calls (snd (IsTreeOpen env t)) = Submit_calls t"
    by (simp add: new(1) calls_append gate_event_no_calls[OF new(2)])
  show "HandleCouldNotSubmit_calls (snd (IsTreeOpen env t)) = HandleCouldNotSubmit_calls t"
    by (simp add: new(1) calls_append gate_event_no_calls[OF new(2)])
qed

lemma loop_first_request:
  "\<exists>u. snd (IsTreeOpen_loop env (a # as) s t) = t @ Urlopen status_url # u"
proof (cases "attempt_fails (urlopen_result env t status_url)")
  case True
  obtain k tail where
    "snd (IsTreeOpen_loop env as (s * 2) (t @ [Urlopen status_url, Sleep s])) =
       (t @ [Urlopen status_url, Sleep s]) @ backoff_trace (s * 2) k @ tail"
    using loop_shape[of as env "s * 2" "t @ [Urlopen status_url, Sleep s]"] by blast
  then show ?thesis
    by (simp add: loop_fail_step[OF True] del: IsTreeOpen_loop.simps)
next
  case False
  then have "snd (IsTreeOpen_loop env (a # as) s t) = t @ [Urlopen status_url]"
    by (auto simp: attempt_fails_def Let_def split: http_result.splits sum.splits)
  then show ?thesis by simp
qed

lemma IsTreeOpen_first_request:
  "\<exists>new. snd (IsTreeOpen env t) = t @ Urlopen status_url # new"
proof -
  obtain r t1 where run: "IsTreeOpen_loop env (py_range max_attempts) 1 t = (r, t1)"
    by (cases "IsTreeOpen_loop env (py_range max_attempts) 1 t")
  obtain u where u: "t1 = t @ Urlopen status_url # u"
    using loop_first_request[of env 0 "[1, 2, 3, 4]" 1 t] run
    by (auto simp: py_range_max_attempts simp del: IsTreeOpen_loop.simps)
  show ?thesis
    using IsTreeOpen_after_loop[OF run] by (auto simp: u)
qed

subsection \<open>The tree gate\<close>

lemma env_simps:
  "urlopen_result (env_reporting state) = (\<lambda>t u. status_page state)"
  "urlopen_result env_unreachable = (\<lambda>t u. UrlopenRaises IOError)"
  "urlopen_result (env_flaky state) =
     (\<lambda>t u. if length (Urlopen_calls t) < 3 then Response 503 (Inl ValueError)
             else status_page state)"
  "urlopen_result env_closing =
     (\<lambda>t u. if Urlopen_calls t = [] then status_page ''open'' else status_page ''closed'')"
  by (simp_all add: env_reporting_def env_unreachable_def env_flaky_def env_closing_def)

lemma subscript_status_page:
  "subscript (JObj [(''general_state'', JStr state)]) ''general_state'' = Inr (JStr state)"
  by (simp add: subscript_def)

lemma backoff_trace_numeral:
  "backoff_trace 1 5 =
     [Urlopen status_url, Sleep 1, Urlopen status_url, Sleep 2, Urlopen status_url, Sleep 4,
      Urlopen status_url, Sleep 8, Urlopen status_url, Sleep 16]"
  "backoff_trace 1 3 =
     [Urlopen status_url, Sleep 1, Urlopen status_url, Sleep 2, Urlopen status_url, Sleep 4]"
  by (simp_all add: backoff_trace_def upt_conv_Cons)

lemma loop_raise:
  assumes "k < 5"
    and "\<forall>j<k. attempt_fails (urlopen_result env (t @ backoff_trace 1 j) status_url)"
    and "urlopen_result env (t @ backoff_trace 1 k) status_url = Response 200 (Inl e)"
    and "e \<noteq> IOError"
  shows "IsTreeOpen_loop env (py_range max_attempts) 1 t =
           (Inl e, t @ backoff_trace 1 k @ [Urlopen status_url])"
proof -
  have "k \<le> length (py_range max_attempts)"
    using assms(1) by (simp add: py_range_max_attempts)
  from loop_fails[OF this, of env t 1] assms(2)
  have "IsTreeOpen_loop env (py_range max_attempts) 1 t =
        IsTreeOpen_loop env (drop k (py_range max_attempts)) (1 * 2 ^ k) (t @ backoff_trace 1 k)"
    by blast
  then show ?thesis
    using assms(3,4) by (simp add: drop_py_range[OF assms(1)] Let_def)
qed

lemma IsTreeOpen_raise:
  assumes "k < 5"
    and "\<forall>j<k. attempt_fails (urlopen_result env (t @ backoff_trace 1 j) status_url)"
    and "urlopen_result env (t @ backoff_trace 1 k) status_url = Response 200 (Inl e)"
    and "e \<noteq> IOError"
  shows "IsTreeOpen env t = (Inl e, t @ backoff_trace 1 k @ [Urlopen status_url])"
  by (simp add: IsTreeOpen_def loop_raise[OF assms])

lemma subscript_JObj:
  "map_of (rev kvs) k = Some v \<Longrightarrow> subscript (JObj kvs) k = Inr v"
  by (simp add: subscript_def)

lemma backoff_trace_4:
  "backoff_trace 1 4 =
     [Urlopen status_url, Sleep 1, Urlopen status_url, Sleep 2, Urlopen status_url, Sleep 4,
      Urlopen status_url, Sleep 8]"
  by (simp add: backoff_trace_def upt_conv_Cons)

lemma env_late_bad_urlopen:
  "urlopen_result env_late_bad =
     (\<lambda>t u. if length (Urlopen_calls t) < 4 then UrlopenRaises IOError
             else Response 200 (Inl ValueError))"
  by (simp add: env_late_bad_def)

text \<open>
  C3, as the claim states it, fails on the code. The claim lets the gate answer True
  whenever all five attempts fail to obtain a well-formed 200 response. Here the first
  four requests raise IOError and the fifth gets status 200 with a body that is not
  JSON: five attempts are made, none obtains a well-formed response, and the gate raises
  ValueError instead of answering True. Only IOError is caught in the loop.
\<close>

theorem IsTreeOpen_malformed_counterexample:
  "urlopen_result env_late_bad [] status_url = UrlopenRaises IOError
   \<and> urlopen_result env_late_bad [Urlopen status_url, Sleep 1] status_url = UrlopenRaises IOError
   \<and> urlopen_result env_late_bad
        [Urlopen status_url, Sleep 1, Urlopen status_url, Sleep 2] status_url = UrlopenRaises IOError
   \<and> urlopen_result env_late_bad
        [Urlopen status_url, Sleep 1, Urlopen status_url, Sleep 2, Urlopen status_url, Sleep 4]
        status_url = UrlopenRaises IOError
   \<and> urlopen_result env_late_bad
        [Urlopen status_url, Sleep 1, Urlopen status_url, Sleep 2, Urlopen status_url, Sleep 4,
         Urlopen status_url, Sleep 8] status_url = Response 200 (Inl ValueError)
   \<and> IsTreeOpen env_late_bad [] =
        (Inl ValueError,
         [Urlopen status_url, Sleep 1, Urlopen status_url, Sleep 2, Urlopen status_url, Sleep 4,
          Urlopen status_url, Sleep 8, Urlopen status_url])
   \<and> length (Urlopen_calls (snd (IsTreeOpen env_late_bad []))) = 5
   \<and> fst (IsTreeOpen env_late_bad []) \<noteq> Inr True"
proof -
  have fl: "\<forall>j<4. attempt_fails (urlopen_result env_late_bad ([] @ backoff_trace 1 j) status_url)"
    by (simp add: env_late_bad_urlopen Urlopen_calls_backoff attempt_fails_def)
  have bad: "urlopen_result env_late_bad ([] @ backoff_trace 1 4) status_url =
      Response 200 (Inl ValueError)"
    by (simp add: env_late_bad_urlopen Urlopen_calls_backoff)
  have run: "IsTreeOpen env_late_bad [] =
        (Inl ValueError,
         [Urlopen status_url, Sleep 1, Urlopen status_url, Sleep 2, Urlopen status_url, Sleep 4,
          Urlopen status_url, Sleep 8, Urlopen status_url])"
    using IsTreeOpen_raise[OF _ fl bad] by (simp add: backoff_trace_4)
  show ?thesis
    by (simp add: run env_late_bad_urlopen calls_Cons calls_Nil)
qed

text \<open>
  C3, amended. An attempt fails when the request raises IOError, when the status code is
  not 200, or when reading the body raises IOError; these are the attempts the loop
  retries. If the first \<open>k\<close> attempts fail (\<open>k < 5\<close>) and the next one gets status 200
  with a body that decodes to a dict whose \<open>general_state\<close> is \<open>v\<close> (the last value
  given for the key), the gate answers True exactly when \<open>v\<close> is the string \<open>open\<close> or
  \<open>throttled\<close>, and False for every other value. If all five attempts fail, the gate
  answers True, and the last thing it does is to log the warning: it neither raises nor
  answers False. If the first \<open>k\<close> attempts fail and the next one gets status 200 with
  a body whose decoding raises an exception other than IOError, the gate raises that
  exception at once: it neither retries nor answers.
\<close>

theorem IsTreeOpen_verdict:
  "(k < 5 \<and>
    (\<forall>j<k. attempt_fails (urlopen_result env (t @ backoff_trace 1 j) status_url)) \<and>
    urlopen_result env (t @ backoff_trace 1 k) status_url = Response 200 (Inr (JObj kvs)) \<and>
    map_of (rev kvs) ''general_state'' = Some v
    \<longrightarrow> fst (IsTreeOpen env t) = Inr (v = JStr ''open'' \<or> v = JStr ''throttled''))
   \<and> ((\<forall>j<5. attempt_fails (urlopen_result env (t @ backoff_trace 1 j) status_url))
    \<longrightarrow> IsTreeOpen env t =
          (Inr True, t @ backoff_trace 1 5 @ [Warn_no_status status_url]))
   \<and> (k < 5 \<and>
    (\<forall>j<k. attempt_fails (urlopen_result env (t @ backoff_trace 1 j) status_url)) \<and>
    urlopen_result env (t @ backoff_trace 1 k) status_url = Response 200 (Inl e) \<and>
    e \<noteq> IOError
    \<longrightarrow> IsTreeOpen env t = (Inl e, t @ backoff_trace 1 k @ [Urlopen status_url]))"
proof (intro conjI impI)
  assume a: "k < 5 \<and>
    (\<forall>j<k. attempt_fails (urlopen_result env (t @ backoff_trace 1 j) status_url)) \<and>
    urlopen_result env (t @ backoff_trace 1 k) status_url = Response 200 (Inr (JObj kvs)) \<and>
    map_of (rev kvs) ''general_state'' = Some v"
  then have "subscript (JObj kvs) ''general_state'' = Inr v"
    by (simp add: subscript_JObj)
  with a show "fst (IsTreeOpen env t) = Inr (v = JStr ''open'' \<or> v = JStr ''throttled'')"
    using IsTreeOpen_answer[of k env t "JObj kvs" v] by simp
next
  assume "\<forall>j<5. attempt_fails (urlopen_result env (t @ backoff_trace 1 j) status_url)"
  then show "IsTreeOpen env t = (Inr True, t @ backoff_trace 1 5 @ [Warn_no_status status_url])"
    by (rule IsTreeOpen_all_fail)
next
  assume "k < 5 \<and>
    (\<forall>j<k. attempt_fails (urlopen_result env (t @ backoff_trace 1 j) status_url)) \<and>
    urlopen_result env (t @ backoff_trace 1 k) status_url = Response 200 (Inl e) \<and>
    e \<noteq> IOError"
  then show "IsTreeOpen env t = (Inl e, t @ backoff_trace 1 k @ [Urlopen status_url])"
    using IsTreeOpen_raise[of k env t e] by blast
qed

theorem IsTreeOpen_verdict_witness:
  "fst (IsTreeOpen (env_flaky ''throttled'') []) = Inr True
   \<and> fst (IsTreeOpen (env_flaky ''closed'') []) = Inr False
   \<and> IsTreeOpen env_unreachable [] =
       (Inr True,
        [Urlopen status_url, Sleep 1, Urlopen status_url, Sleep 2, Urlopen status_url, Sleep 4,
         Urlopen status_url, Sleep 8, Urlopen status_url, Sleep 16, Warn_no_status status_url])
   \<and> IsTreeOpen env_late_bad [] =
        (Inl ValueError,
         [Urlopen status_url, Sleep 1, Urlopen status_url, Sleep 2, Urlopen status_url, Sleep 4,
          Urlopen status_url, Sleep 8, Urlopen status_url])"
proof -
  have fl: "\<And>state. \<forall>j<3. attempt_fails
      (urlopen_result (env_flaky state) ([] @ backoff_trace 1 j) status_url)"
    by (simp add: env_simps Urlopen_calls_backoff attempt_fails_def)
  have ok: "\<And>state. urlopen_result (env_flaky state) ([] @ backoff_trace 1 3) status_url =
      Response 200 (Inr (JObj [(''general_state'', JStr state)]))"
    by (simp add: env_simps Urlopen_calls_backoff status_page_def)
  have un: "\<forall>j<5. attempt_fails (urlopen_result env_unreachable ([] @ backoff_trace 1 j) status_url)"
    by (simp add: env_simps attempt_fails_def)
  have lb: "\<forall>j<4. attempt_fails (urlopen_result env_late_bad ([] @ backoff_trace 1 j) status_url)"
    by (simp add: env_late_bad_urlopen Urlopen_calls_backoff attempt_fails_def)
  have bad: "urlopen_result env_late_bad ([] @ backoff_trace 1 4) status_url =
      Response 200 (Inl ValueError)"
    by (simp add: env_late_bad_urlopen Urlopen_calls_backoff)
  have c1: "fst (IsTreeOpen (env_flaky ''throttled'') []) = Inr True"
    using IsTreeOpen_verdict[of 3 "env_flaky ''throttled''" "[]"
        "[(''general_state'', JStr ''throttled'')]" "JStr ''throttled''"] fl ok
    by simp
  have c2: "fst (IsTreeOpen (env_flaky ''closed'') []) = Inr False"
    using IsTreeOpen_verdict[of 3 "env_flaky ''closed''" "[]"
        "[(''general_state'', JStr ''closed'')]" "JStr ''closed''"] fl ok
    by simp
  have c3: "IsTreeOpen env_unreachable [] =
       (Inr True,
        [Urlopen status_url, Sleep 1, Urlopen status_url, Sleep 2, Urlopen status_url, Sleep 4,
         Urlopen status_url, Sleep 8, Urlopen status_url, Sleep 16, Warn_no_status status_url])"
    using IsTreeOpen_verdict[of 0 env_unreachable "[]" "[]" JNull ValueError] un
    by (simp add: backoff_trace_numeral del: One_nat_def)
  have c4: "IsTreeOpen env_late_bad [] =
        (Inl ValueError,
         [Urlopen status_url, Sleep 1, Urlopen status_url, Sleep 2, Urlopen status_url, Sleep 4,
          Urlopen status_url, Sleep 8, Urlopen status_url])"
    using IsTreeOpen_verdict[of 4 env_late_bad "[]" "[]" JNull ValueError] lb bad
    by (simp add: backoff_trace_4)
  show ?thesis
    by (intro conjI) (rule c1 c2 c3 c4)+
qed

text \<open>
  C7. One call of the gate makes at most five requests. The sleeps it makes are 1, 2, 4,
  ... seconds, each twice the one before, and at most five of them. If the first \<open>k\<close>
  attempts fail (\<open>k \<le> 5\<close>), the trace of the call starts with \<open>backoff_trace 1 k\<close>:
  the \<open>n\<close>-th failed attempt is followed at once by a sleep of \<open>2 ^ (n - 1)\<close> seconds.
\<close>

theorem IsTreeOpen_backoff:
  "length (Urlopen_calls (snd (IsTreeOpen env t))) \<le> length (Urlopen_calls t) + 5
   \<and> (\<exists>k\<le>5. Sleep_calls (snd (IsTreeOpen env t)) = Sleep_calls t @ map (\<lambda>j. 2 ^ j) [0..<k])
   \<and> (k \<le> 5 \<and> (\<forall>j<k. attempt_fails (urlopen_result env (t @ backoff_trace 1 j) status_url))
      \<longrightarrow> (\<exists>rest. snd (IsTreeOpen env t) = t @ backoff_trace 1 k @ rest))"
proof (intro conjI impI)
  obtain n tail where n: "n \<le> 5" and sh: "snd (IsTreeOpen env t) = t @ backoff_trace 1 n @ tail"
    and sl: "Sleep_calls tail = []" and ur: "length (Urlopen_calls tail) \<le> 5 - n"
    using IsTreeOpen_shape[of env t] by blast
  show "length (Urlopen_calls (snd (IsTreeOpen env t))) \<le> length (Urlopen_calls t) + 5"
    using n ur by (simp add: sh calls_append Urlopen_calls_backoff)
  show "\<exists>k\<le>5. Sleep_calls (snd (IsTreeOpen env t)) = Sleep_calls t @ map (\<lambda>j. 2 ^ j) [0..<k]"
    using n sl by (intro exI[of _ n]) (simp add: sh calls_append Sleep_calls_backoff)
next
  assume a: "k \<le> 5 \<and> (\<forall>j<k. attempt_fails (urlopen_result env (t @ backoff_trace 1 j) status_url))"
  then have len: "k \<le> length (py_range max_attempts)"
    by (simp add: py_range_max_attempts)
  have eq: "IsTreeOpen_loop env (py_range max_attempts) 1 t =
        IsTreeOpen_loop env (drop k (py_range max_attempts)) (1 * 2 ^ k) (t @ backoff_trace 1 k)"
    using loop_fails[OF len, of env t 1] a by blast
  obtain n tail where
    "snd (IsTreeOpen_loop env (drop k (py_range max_attempts)) (1 * 2 ^ k) (t @ backoff_trace 1 k)) =
       (t @ backoff_trace 1 k) @ backoff_trace (1 * 2 ^ k) n @ tail"
    using loop_shape[of "drop k (py_range max_attempts)" env "1 * 2 ^ k" "t @ backoff_trace 1 k"]
    by blast
  then have lp: "snd (IsTreeOpen_loop env (py_range max_attempts) 1 t) =
       t @ backoff_trace 1 k @ (backoff_trace (1 * 2 ^ k) n @ tail)"
    using eq by simp
  obtain r t1 where run: "IsTreeOpen_loop env (py_range max_attempts) 1 t = (r, t1)"
    by (cases "IsTreeOpen_loop env (py_range max_attempts) 1 t")
  show "\<exists>rest. snd (IsTreeOpen env t) = t @ backoff_trace 1 k @ rest"
    using IsTreeOpen_after_loop[OF run] lp run by auto
qed

theorem IsTreeOpen_backoff_witness:
  "Sleep_calls (snd (IsTreeOpen env_unreachable [])) = [1, 2, 4, 8, 16]
   \<and> length (Urlopen_calls (snd (IsTreeOpen env_unreachable []))) = 5
   \<and> (\<exists>rest. snd (IsTreeOpen env_unreachable []) =
        [Urlopen status_url, Sleep 1, Urlopen status_url, Sleep 2, Urlopen status_url, Sleep 4,
         Urlopen status_url, Sleep 8, Urlopen status_url, Sleep 16] @ rest)"
proof -
  have un: "\<forall>j<5. attempt_fails (urlopen_result env_unreachable ([] @ backoff_trace 1 j) status_url)"
    by (simp add: env_simps attempt_fails_def)
  have run: "snd (IsTreeOpen env_unreachable []) = backoff_trace 1 5 @ [Warn_no_status status_url]"
    using IsTreeOpen_all_fail[OF un] by simp
  have "\<exists>rest. snd (IsTreeOpen env_unreachable []) = [] @ backoff_trace 1 5 @ rest"
    using IsTreeOpen_backoff[of env_unreachable "[]" 5] un by blast
  then show ?thesis
    by (simp add: run backoff_trace_numeral calls_Cons calls_Nil)
qed

subsection \<open>Acquisition and submit\<close>

lemma IsTreeOpen_immediate:
  assumes "urlopen_result env t status_url = status_page state"
  shows "IsTreeOpen env t =
     (Inr (state = ''open'' \<or> state = ''throttled''), t @ [Urlopen status_url])"
proof -
  have "urlopen_result env (t @ backoff_trace 1 0) status_url =
      Response 200 (Inr (JObj [(''general_state'', JStr state)]))"
    using assms by (simp add: status_page_def backoff_trace_0)
  from IsTreeOpen_answer[OF _ _ this subscript_status_page]
  show ?thesis by (simp add: backoff_trace_0)
qed

lemma IsTreeOpen_env_reporting:
  "IsTreeOpen (env_reporting state) t =
     (Inr (state = ''open'' \<or> state = ''throttled''), t @ [Urlopen status_url])"
  by (rule IsTreeOpen_immediate) (simp add: env_simps)

lemma ChangeSource_calls_Cons:
  "ChangeSource_calls (e # t) =
     (case e of
        New_GerritHelper i \<Rightarrow> [e]
      | GrabChangesReadyForCommit b \<Rightarrow> [e]
      | FilterProjectsNotInSourceTree cs r \<Rightarrow> [e]
      | GrabPatchFromGerrit p c k \<Rightarrow> [e]
      | _ \<Rightarrow> []) @ ChangeSource_calls t"
  by (simp add: ChangeSource_calls_def)

lemma env_reporting_fields:
  "GrabChangesReadyForCommit_result (env_reporting state) = (\<lambda>t b. [1, 2, 3])"
  "FilterProjectsNotInSourceTree_result (env_reporting state) = (\<lambda>t cs r. cs)"
  "Apply_result (env_reporting state) =
     (\<lambda>t c d. if c = 2 then Some ApplyPatchException else None)"
  "Submit_result (env_reporting state) = (\<lambda>t c b. None)"
  "list_of_set (env_reporting state) = sorted_list_of_set"
  by (simp_all add: env_reporting_def)

lemma env_closing_fields:
  "GrabChangesReadyForCommit_result env_closing = (\<lambda>t b. [1, 2, 3])"
  "FilterProjectsNotInSourceTree_result env_closing = (\<lambda>t cs r. cs)"
  by (simp_all add: env_closing_def env_reporting_def)

lemma env_submit_fails_fields:
  "urlopen_result env_submit_fails = urlopen_result (env_reporting ''open'')"
  "Submit_result env_submit_fails = (\<lambda>t c b. Some RunCommandError)"
  by (simp_all add: env_submit_fails_def env_reporting_def)

text \<open>
  C5. When the gate answers False, AcquirePool raises TreeIsClosedException and returns no
  pool; all it has done by then is what the gate did, so it has made no call to the
  change source (no GerritHelper built, no changes grabbed, nothing filtered).
  TreeIsClosedException is none of the other exceptions.
\<close>

theorem AcquirePool_tree_closed:
  "fst (IsTreeOpen env t) = Inr False \<longrightarrow>
     AcquirePool env g branch internal buildroot d t =
       (Inl TreeIsClosedException, snd (IsTreeOpen env t))
     \<and> ChangeSource_calls (snd (AcquirePool env g branch internal buildroot d t)) =
         ChangeSource_calls t
     \<and> TreeIsClosedException \<notin>
         {ApplyPatchException, RunCommandError, IOError, ValueError, KeyError, TypeError}"
proof
  assume closed: "fst (IsTreeOpen env t) = Inr False"
  then have run: "AcquirePool env g branch internal buildroot d t =
       (Inl TreeIsClosedException, snd (IsTreeOpen env t))"
    by (cases "IsTreeOpen env t") (simp add: AcquirePool_def)
  show "AcquirePool env g branch internal buildroot d t =
       (Inl TreeIsClosedException, snd (IsTreeOpen env t))
     \<and> ChangeSource_calls (snd (AcquirePool env g branch internal buildroot d t)) =
         ChangeSource_calls t
     \<and> TreeIsClosedException \<notin>
         {ApplyPatchException, RunCommandError, IOError, ValueError, KeyError, TypeError}"
    by (simp add: run IsTreeOpen_no_calls)
qed

theorem AcquirePool_tree_closed_witness:
  "AcquirePool (env_reporting ''closed'') False ''master'' False ''/b'' False [] =
     (Inl TreeIsClosedException, [Urlopen status_url])
   \<and> ChangeSource_calls
       (snd (AcquirePool (env_reporting ''closed'') False ''master'' False ''/b'' False [])) = []"
  using AcquirePool_tree_closed
    [of "env_reporting ''closed''" "[]" False "''master''" False "''/b''" False]
  by (simp add: IsTreeOpen_env_reporting calls_Nil ChangeSource_calls_Cons)

text \<open>
  C6. Every call of SubmitPool starts with a request of its own to the status page. When
  the gate answers False at that time, SubmitPool raises TreeIsClosedException, makes no
  Submit call and no HandleCouldNotSubmit call, and leaves the pool as it was.
\<close>

theorem SubmitPool_tree_closed:
  "(\<exists>new. snd (snd (SubmitPool env pool t)) = t @ Urlopen status_url # new)
   \<and> (fst (IsTreeOpen env t) = Inr False \<longrightarrow>
        SubmitPool env pool t = (Inl TreeIsClosedException, pool, snd (IsTreeOpen env t))
        \<and> Submit_calls (snd (snd (SubmitPool env pool t))) = Submit_calls t
        \<and> HandleCouldNotSubmit_calls (snd (snd (SubmitPool env pool t))) =
            HandleCouldNotSubmit_calls t
        \<and> changes (fst (snd (SubmitPool env pool t))) = changes pool)"
proof (intro conjI impI)
  obtain new where new: "snd (IsTreeOpen env t) = t @ Urlopen status_url # new"
    using IsTreeOpen_first_request[of env t] by blast
  obtain r t1 where g: "IsTreeOpen env t = (r, t1)" by (cases "IsTreeOpen env t")
  have "\<exists>u. snd (snd (SubmitPool env pool t)) = t1 @ u"
    by (cases "changes pool")
       (auto simp: SubmitPool_def g Let_def split: sum.splits bool.splits option.splits)
  then show "\<exists>new. snd (snd (SubmitPool env pool t)) = t @ Urlopen status_url # new"
    using new g by auto
next
  assume closed: "fst (IsTreeOpen env t) = Inr False"
  then have run: "SubmitPool env pool t = (Inl TreeIsClosedException, pool, snd (IsTreeOpen env t))"
    by (cases "IsTreeOpen env t") (simp add: SubmitPool_def)
  show "SubmitPool env pool t = (Inl TreeIsClosedException, pool, snd (IsTreeOpen env t))"
    by (rule run)
  show "Submit_calls (snd (snd (SubmitPool env pool t))) = Submit_calls t"
    by (simp add: run IsTreeOpen_no_calls)
  show "HandleCouldNotSubmit_calls (snd (snd (SubmitPool env pool t))) =
            HandleCouldNotSubmit_calls t"
    by (simp add: run IsTreeOpen_no_calls)
  show "changes (fst (snd (SubmitPool env pool t))) = changes pool"
    by (simp add: run)
qed

lemma IsTreeOpen_env_closing:
  "IsTreeOpen env_closing [] = (Inr True, [Urlopen status_url])"
  "Urlopen_calls t \<noteq> [] \<Longrightarrow> IsTreeOpen env_closing t = (Inr False, t @ [Urlopen status_url])"
  using IsTreeOpen_immediate[of env_closing "[]" "''open''"]
    IsTreeOpen_immediate[of env_closing t "''closed''"]
  by (simp_all add: env_simps calls_Nil)

theorem SubmitPool_tree_closed_witness:
  "AcquirePool env_closing False ''master'' False ''/b'' False [] =
     (Inr (pool_of [1, 2, 3]),
      [Urlopen status_url, New_GerritHelper False, GrabChangesReadyForCommit ''master'',
       FilterProjectsNotInSourceTree [1, 2, 3] ''/b''])
   \<and> SubmitPool env_closing (pool_of [1, 2, 3])
       [Urlopen status_url, New_GerritHelper False, GrabChangesReadyForCommit ''master'',
        FilterProjectsNotInSourceTree [1, 2, 3] ''/b''] =
     (Inl TreeIsClosedException, pool_of [1, 2, 3],
      [Urlopen status_url, New_GerritHelper False, GrabChangesReadyForCommit ''master'',
       FilterProjectsNotInSourceTree [1, 2, 3] ''/b'', Urlopen status_url])
   \<and> Submit_calls (snd (snd (SubmitPool env_closing (pool_of [1, 2, 3])
       [Urlopen status_url, New_GerritHelper False, GrabChangesReadyForCommit ''master'',
        FilterProjectsNotInSourceTree [1, 2, 3] ''/b'']))) = []"
proof -
  let ?t = "[Urlopen status_url, New_GerritHelper False, GrabChangesReadyForCommit ''master'',
        FilterProjectsNotInSourceTree [1, 2, 3] ''/b''] :: nat event list"
  have acq: "AcquirePool env_closing False ''master'' False ''/b'' False [] =
     (Inr (pool_of [1, 2, 3]), ?t)"
    by (simp add: AcquirePool_def IsTreeOpen_env_closing ValidationPool_init_def Let_def
        pool_of_def env_closing_fields)
  have gate: "IsTreeOpen env_closing ?t = (Inr False, ?t @ [Urlopen status_url])"
    by (rule IsTreeOpen_env_closing) (simp add: calls_Cons)
  show ?thesis
    using SubmitPool_tree_closed[of env_closing "pool_of [1, 2, 3]" ?t] acq gate
    by (simp add: calls_Cons calls_Nil)
qed

text \<open>
  C9. With the tree open and no change in the pool, SubmitPool returns None, not a
  boolean: the loop has no change to run on and the method ends without a return.
\<close>

theorem SubmitPool_empty_pool:
  "fst (IsTreeOpen env t) = Inr True \<and> changes pool = [] \<longrightarrow>
     SubmitPool env pool t = (Inr None, pool, snd (IsTreeOpen env t))"
  by (cases "IsTreeOpen env t") (simp add: SubmitPool_def)

theorem SubmitPool_empty_pool_witness:
  "SubmitPool (env_reporting ''open'') (pool_of []) [] =
     (Inr None, pool_of [], [Urlopen status_url])"
  using SubmitPool_empty_pool[of "env_reporting ''open''" "[]" "pool_of []"]
  by (simp add: IsTreeOpen_env_reporting pool_of_def)

text \<open>
  C1. The claim says that SubmitPool attempts every change of the pool; the code does
  not. One call of SubmitPool makes at most one Submit call, whatever the pool holds.
  With the tree open and the pool [1, 3], change 1 is submitted, change 3 is never
  reached, and the method returns True; when the submit of change 1 raises
  RunCommandError, change 1 goes to HandleCouldNotSubmit and the method returns True
  as well, again without reaching change 3.
\<close>

theorem SubmitPool_first_change_only:
  "length (Submit_calls (snd (snd (SubmitPool env pool t)))) \<le> length (Submit_calls t) + 1
   \<and> SubmitPool (env_reporting ''open'') (pool_of [1, 3]) [] =
       (Inr (Some True), pool_of [1, 3],
        [Urlopen status_url, Info_will_submit 1, Submit 1 (Some (GerritHelper False)) False])
   \<and> SubmitPool env_submit_fails (pool_of [1, 3]) [] =
       (Inr (Some True), pool_of [1, 3],
        [Urlopen status_url, Info_will_submit 1, Submit 1 (Some (GerritHelper False)) False,
         HandleCouldNotSubmit 1 (Some (GerritHelper False)) False])"
proof (intro conjI)
  obtain r t1 where g: "IsTreeOpen env t = (r, t1)" by (cases "IsTreeOpen env t")
  have t1: "Submit_calls t1 = Submit_calls t"
    using IsTreeOpen_no_calls(2)[of env t] g by simp
  show "length (Submit_calls (snd (snd (SubmitPool env pool t)))) \<le> length (Submit_calls t) + 1"
    by (cases "changes pool")
       (auto simp: SubmitPool_def g t1 Let_def calls_append calls_Cons calls_Nil
          split: sum.splits bool.splits option.splits)
  show "SubmitPool (env_reporting ''open'') (pool_of [1, 3]) [] =
       (Inr (Some True), pool_of [1, 3],
        [Urlopen status_url, Info_will_submit 1, Submit 1 (Some (GerritHelper False)) False])"
    by (simp add: SubmitPool_def IsTreeOpen_env_reporting pool_of_def env_reporting_fields)
  have "IsTreeOpen env_submit_fails [] = (Inr True, [Urlopen status_url])"
    using IsTreeOpen_immediate[of env_submit_fails "[]" "''open''"]
    by (simp add: env_submit_fails_fields env_simps)
  then show "SubmitPool env_submit_fails (pool_of [1, 3]) [] =
       (Inr (Some True), pool_of [1, 3],
        [Urlopen status_url, Info_will_submit 1, Submit 1 (Some (GerritHelper False)) False,
         HandleCouldNotSubmit 1 (Some (GerritHelper False)) False])"
    by (simp add: SubmitPool_def IsTreeOpen_env_reporting pool_of_def env_submit_fails_fields)
qed

text \<open>
  C4. The claim says that AcquirePoolFromManifest returns a pool with one change for each
  triple of the manifest; the code does not. It builds its pool with no argument, the
  constructor needs one, and so every call raises TypeError before anything else
  happens: the trace is left as it was.
\<close>

theorem AcquirePoolFromManifest_raises_TypeError:
  "AcquirePoolFromManifest env g manifest internal t = (Inl TypeError, t)"
  by (simp add: AcquirePoolFromManifest_def ValidationPool_init_def)

subsection \<open>The apply phase: what is applied, what is left, in which order\<close>

lemma Apply_loop_partition:
  assumes "\<forall>h. \<forall>c\<in>set cs. Apply_result env h c directory =
             (if c \<in> F then Some ApplyPatchException else None)"
  shows "Apply_loop env directory cs non_applied t =
           (Inr (non_applied @ filter (\<lambda>c. c \<in> F) cs),
            t @ concat (map (\<lambda>c. if c \<in> F then [Apply c directory True]
                                  else [Apply c directory True, PrintLink c]) cs))"
  using assms
proof (induction cs arbitrary: non_applied t)
  case Nil
  show ?case by simp
next
  case (Cons c cs)
  have rest: "\<forall>h. \<forall>c\<in>set cs. Apply_result env h c directory =
             (if c \<in> F then Some ApplyPatchException else None)"
    using Cons.prems by simp
  have here: "Apply_result env t c directory =
             (if c \<in> F then Some ApplyPatchException else None)"
    using Cons.prems by simp
  show ?case
    by (simp add: Let_def here Cons.IH[OF rest])
qed

lemma HandleApplicationFailure_trace:
  "HandleApplicationFailure pool xs t =
     t @ concat (map (\<lambda>c. [Info_did_not_apply c,
                           HandleCouldNotApply c (gerrit_helper pool) (dryrun pool)]) xs)"
  by (induction xs arbitrary: t) simp_all

lemma calls_of_apply_trace:
  "Apply_calls (concat (map (\<lambda>c. if c \<in> F then [Apply c directory True]
                                  else [Apply c directory True, PrintLink c]) cs)) = cs"
  "HandleCouldNotApply_calls (concat (map (\<lambda>c. if c \<in> F then [Apply c directory True]
                                  else [Apply c directory True, PrintLink c]) cs)) = []"
  by (induction cs) (simp_all add: calls_Nil calls_Cons calls_append)

lemma calls_of_handler_trace:
  "Apply_calls (concat (map (\<lambda>c. [Info_did_not_apply c, HandleCouldNotApply c h b]) xs)) = []"
  "HandleCouldNotApply_calls
     (concat (map (\<lambda>c. [Info_did_not_apply c, HandleCouldNotApply c h b]) xs)) = xs"
  by (induction xs) (simp_all add: calls_Nil calls_Cons calls_append)

lemma count_list_filter_distinct:
  "distinct cs \<Longrightarrow>
     count_list (filter P cs) c = (if c \<in> set cs \<and> P c then 1 else 0)"
  by (induction cs) auto

text \<open>What ApplyPoolIntoRepo does when the outcome of Apply depends on the change alone.\<close>

lemma ApplyPoolIntoRepo_run:
  assumes "\<forall>h. \<forall>c\<in>set (changes pool). Apply_result env h c directory =
             (if c \<in> F then Some ApplyPatchException else None)"
  shows "ApplyPoolIntoRepo env pool directory t =
     (if filter (\<lambda>c. c \<in> F) (changes pool) \<noteq> [] then
        (Inr (list_of_set env (set (changes pool) - F) \<noteq> []),
         pool\<lparr>changes := list_of_set env (set (changes pool) - F)\<rparr>,
         t @ concat (map (\<lambda>c. if c \<in> F then [Apply c directory True]
                               else [Apply c directory True, PrintLink c]) (changes pool))
           @ [Debug_not_applied]
           @ concat (map (\<lambda>c. [Info_did_not_apply c,
                                HandleCouldNotApply c (gerrit_helper pool) (dryrun pool)])
                      (filter (\<lambda>c. c \<in> F) (changes pool))))
      else
        (Inr (changes pool \<noteq> []), pool,
         t @ concat (map (\<lambda>c. if c \<in> F then [Apply c directory True]
                               else [Apply c directory True, PrintLink c]) (changes pool))))"
proof -
  have "set (changes pool) - set (filter (\<lambda>c. c \<in> F) (changes pool)) = set (changes pool) - F"
    by auto
  then show ?thesis
    by (simp add: ApplyPoolIntoRepo_def Apply_loop_partition[OF assms]
        HandleApplicationFailure_trace Let_def)
qed

text \<open>
  C2. Let \<open>F\<close> be the changes that do not apply, the others apply (the outcome of Apply
  depends on the change alone), and let the order of a set list each element once. Then
  ApplyPoolIntoRepo calls Apply on every change of the pool, once each and in the pool's
  order, whatever failed before; the changes of the pool afterwards are, as a set, the
  original ones without \<open>F\<close>; HandleCouldNotApply is called on the failed changes of the
  pool and on nothing else, and when the pool holds no change twice (the pool's changes
  are unique by identity) each failed change gets exactly one such call; and the result
  is True exactly when a change is left in the pool.
\<close>

theorem ApplyPoolIntoRepo_partition:
  assumes "set_order_ok (list_of_set env)"
    and "\<forall>h. \<forall>c\<in>set (changes pool). Apply_result env h c directory =
             (if c \<in> F then Some ApplyPatchException else None)"
    and "ApplyPoolIntoRepo env pool directory t = (r, pool', t')"
  shows "Apply_calls t' = Apply_calls t @ changes pool
    \<and> set (changes pool') = set (changes pool) - F
    \<and> HandleCouldNotApply_calls t' =
        HandleCouldNotApply_calls t @ filter (\<lambda>c. c \<in> F) (changes pool)
    \<and> (distinct (changes pool) \<longrightarrow>
         (\<forall>c. count_list (HandleCouldNotApply_calls t') c =
              count_list (HandleCouldNotApply_calls t) c +
              (if c \<in> set (changes pool) \<and> c \<in> F then 1 else 0)))
    \<and> r = Inr (changes pool' \<noteq> [])"
proof -
  let ?failed = "filter (\<lambda>c. c \<in> F) (changes pool)"
  let ?applied = "concat (map (\<lambda>c. if c \<in> F then [Apply c directory True]
                               else [Apply c directory True, PrintLink c]) (changes pool))"
  let ?handled = "concat (map (\<lambda>c. [Info_did_not_apply c,
                                HandleCouldNotApply c (gerrit_helper pool) (dryrun pool)]) ?failed)"
  have fin: "set (list_of_set env (set (changes pool) - F)) = set (changes pool) - F"
    using assms(1) by (simp add: set_order_ok_def)
  have proj: "r = fst (ApplyPoolIntoRepo env pool directory t)"
    "pool' = fst (snd (ApplyPoolIntoRepo env pool directory t))"
    "t' = snd (snd (ApplyPoolIntoRepo env pool directory t))"
    using assms(3) by simp_all
  have calls: "Apply_calls t' = Apply_calls t @ changes pool
      \<and> HandleCouldNotApply_calls t' = HandleCouldNotApply_calls t @ ?failed
      \<and> set (changes pool') = set (changes pool) - F
      \<and> r = Inr (changes pool' \<noteq> [])"
  proof (cases "?failed = []")
    case True
    then have none: "set (changes pool) - F = set (changes pool)"
      by (auto simp: filter_empty_conv)
    have eq: "ApplyPoolIntoRepo env pool directory t =
        (Inr (changes pool \<noteq> []), pool, t @ ?applied)"
      using True by (simp add: ApplyPoolIntoRepo_run[OF assms(2)])
    show ?thesis
      unfolding proj eq using True none
      by (simp add: calls_append calls_of_apply_trace)
  next
    case False
    have eq: "ApplyPoolIntoRepo env pool directory t =
        (Inr (list_of_set env (set (changes pool) - F) \<noteq> []),
         pool\<lparr>changes := list_of_set env (set (changes pool) - F)\<rparr>,
         t @ ?applied @ [Debug_not_applied] @ ?handled)"
      using False by (simp add: ApplyPoolIntoRepo_run[OF assms(2)])
    show ?thesis
      unfolding proj eq using fin
      by (simp add: calls_append calls_of_apply_trace calls_of_handler_trace calls_Cons calls_Nil)
  qed
  then show ?thesis
    by (simp add: count_list_filter_distinct)
qed

lemma set_order_ok_sorted:
  "set_order_ok (sorted_list_of_set :: nat set \<Rightarrow> nat list)"
  "set_order_ok (\<lambda>S :: nat set. rev (sorted_list_of_set S))"
  by (simp_all add: set_order_ok_def)

lemma sorted_list_of_1_3:
  "sorted_list_of_set ({1, 2, 3} - {2 :: nat}) = [1, 3]"
  "sorted_list_of_set ({Suc 0, 2, 3} - {2 :: nat}) = [Suc 0, 3]"
proof -
  have "{1, 2, 3} - {2 :: nat} = set [1, 3]" by auto
  then show "sorted_list_of_set ({1, 2, 3} - {2 :: nat}) = [1, 3]"
    by (simp only: sorted_list_of_set_sort_remdups) simp
  then show "sorted_list_of_set ({Suc 0, 2, 3} - {2 :: nat}) = [Suc 0, 3]"
    by simp
qed

theorem ApplyPoolIntoRepo_partition_witness:
  "ApplyPoolIntoRepo (env_reporting ''open'') (pool_of [1, 2, 3]) ''/b'' [] =
     (Inr True, pool_of [1, 3],
      [Apply 1 ''/b'' True, PrintLink 1, Apply 2 ''/b'' True, Apply 3 ''/b'' True, PrintLink 3,
       Debug_not_applied, Info_did_not_apply 2,
       HandleCouldNotApply 2 (Some (GerritHelper False)) False])
   \<and> set (changes (pool_of [1, 3])) = set (changes (pool_of [1, 2, 3])) - {2}
   \<and> count_list (HandleCouldNotApply_calls
       [Apply 1 ''/b'' True, PrintLink 1, Apply 2 ''/b'' True, Apply 3 ''/b'' True, PrintLink 3,
        Debug_not_applied, Info_did_not_apply 2,
        HandleCouldNotApply 2 (Some (GerritHelper False)) False]) (2 :: nat) = 1"
proof -
  let ?env = "env_reporting ''open''"
  let ?t = "[Apply 1 ''/b'' True, PrintLink 1, Apply 2 ''/b'' True, Apply 3 ''/b'' True,
       PrintLink 3, Debug_not_applied, Info_did_not_apply 2,
       HandleCouldNotApply 2 (Some (GerritHelper False)) False] :: nat event list"
  have order: "set_order_ok (list_of_set ?env)"
    by (simp add: env_reporting_fields set_order_ok_sorted)
  have part: "\<forall>h. \<forall>c\<in>set (changes (pool_of [1, 2, 3])).
      Apply_result ?env h c ''/b'' = (if c \<in> {2} then Some ApplyPatchException else None)"
    by (simp add: env_reporting_fields pool_of_def)
  have run: "ApplyPoolIntoRepo ?env (pool_of [1, 2, 3]) ''/b'' [] =
      (Inr True, pool_of [1, 3], ?t)"
    by (simp add: ApplyPoolIntoRepo_def Let_def pool_of_def env_reporting_fields
        sorted_list_of_1_3)
  show ?thesis
    using ApplyPoolIntoRepo_partition[OF order part run] run
    by (simp add: pool_of_def calls_Nil)
qed

text \<open>
  C10. When a change of the pool fails to apply, the pool's new change list is what
  listing the set difference gives: its elements are the original changes without the
  failed ones, in the order of the set, not of the old list. With a set listed in
  descending order, the pool 1, 2, 3 whose change 2 fails ends as 3, 1, whereas the
  changes were inserted as 1 before 3.
\<close>

theorem ApplyPoolIntoRepo_order:
  "(set_order_ok (list_of_set env)
    \<and> (\<forall>h. \<forall>c\<in>set (changes pool). Apply_result env h c directory =
             (if c \<in> F then Some ApplyPatchException else None))
    \<and> (\<exists>c\<in>set (changes pool). c \<in> F)
    \<longrightarrow> changes (fst (snd (ApplyPoolIntoRepo env pool directory t))) =
          list_of_set env (set (changes pool) - F)
        \<and> set (changes (fst (snd (ApplyPoolIntoRepo env pool directory t)))) =
          set (changes pool) - F)
   \<and> set_order_ok (list_of_set env_descending)
   \<and> changes (fst (snd (ApplyPoolIntoRepo env_descending (pool_of [1, 2, 3]) ''/b'' []))) = [3, 1]"
proof (intro conjI impI)
  assume a: "set_order_ok (list_of_set env)
    \<and> (\<forall>h. \<forall>c\<in>set (changes pool). Apply_result env h c directory =
             (if c \<in> F then Some ApplyPatchException else None))
    \<and> (\<exists>c\<in>set (changes pool). c \<in> F)"
  then have ne: "filter (\<lambda>c. c \<in> F) (changes pool) \<noteq> []"
    by (auto simp: filter_empty_conv)
  have part: "\<forall>h. \<forall>c\<in>set (changes pool). Apply_result env h c directory =
             (if c \<in> F then Some ApplyPatchException else None)"
    using a by blast
  show ch: "changes (fst (snd (ApplyPoolIntoRepo env pool directory t))) =
          list_of_set env (set (changes pool) - F)"
    using ne by (simp add: ApplyPoolIntoRepo_run[OF part])
  show "set (changes (fst (snd (ApplyPoolIntoRepo env pool directory t)))) =
          set (changes pool) - F"
    using a by (simp add: ch set_order_ok_def)
next
  show "set_order_ok (list_of_set env_descending)"
    by (simp add: env_descending_def set_order_ok_sorted)
  show "changes (fst (snd (ApplyPoolIntoRepo env_descending (pool_of [1, 2, 3]) ''/b'' []))) = [3, 1]"
    by (simp add: ApplyPoolIntoRepo_def Let_def pool_of_def env_descending_def
        env_reporting_def sorted_list_of_1_3)
qed

theorem ApplyPoolIntoRepo_order_witness:
  "changes (fst (snd (ApplyPoolIntoRepo env_descending (pool_of [1, 2, 3]) ''/b'' []))) =
     rev (sorted_list_of_set ({1, 2, 3} - {2}))
   \<and> set (changes (fst (snd (ApplyPoolIntoRepo env_descending (pool_of [1, 2, 3]) ''/b'' [])))) =
     {1, 2, 3} - {2}
   \<and> filter (\<lambda>c. c \<noteq> 2) (changes (pool_of [1, 2, 3])) = [1, 3]
   \<and> rev (sorted_list_of_set ({1, 2, 3} - {2 :: nat})) = [3, 1]"
proof -
  have order: "set_order_ok (list_of_set env_descending)"
    by (simp add: env_descending_def set_order_ok_sorted)
  have part: "\<forall>h. \<forall>c\<in>set (changes (pool_of [1, 2, 3])).
      Apply_result env_descending h c ''/b'' =
        (if c \<in> {2} then Some ApplyPatchException else None)"
    by (simp add: env_descending_def env_reporting_def pool_of_def)
  have some: "\<exists>c\<in>set (changes (pool_of [1, 2, 3])). c \<in> {2 :: nat}"
    by (simp add: pool_of_def)
  have ls: "list_of_set env_descending = (\<lambda>S. rev (sorted_list_of_set S))"
    by (simp add: env_descending_def)
  from ApplyPoolIntoRepo_order[of env_descending "pool_of [1, 2, 3]" "''/b''" "{2}" "[]"]
    order part some
  have both: "changes (fst (snd (ApplyPoolIntoRepo env_descending (pool_of [1, 2, 3]) ''/b'' []))) =
          list_of_set env_descending (set (changes (pool_of [1, 2, 3])) - {2})
      \<and> set (changes (fst (snd (ApplyPoolIntoRepo env_descending (pool_of [1, 2, 3]) ''/b'' [])))) =
          set (changes (pool_of [1, 2, 3])) - {2}"
    by blast
  have c1: "changes (fst (snd (ApplyPoolIntoRepo env_descending (pool_of [1, 2, 3]) ''/b'' []))) =
     rev (sorted_list_of_set ({1, 2, 3} - {2}))"
    using conjunct1[OF both] by (simp add: ls pool_of_def)
  have c2: "set (changes (fst (snd (ApplyPoolIntoRepo env_descending (pool_of [1, 2, 3]) ''/b'' [])))) =
     {1, 2, 3} - {2}"
    using conjunct2[OF both] by (simp add: pool_of_def)
  have c3: "filter (\<lambda>c. c \<noteq> 2) (changes (pool_of [1, 2, 3])) = [1, 3]"
    by (simp add: pool_of_def)
  have c4: "rev (sorted_list_of_set ({1, 2, 3} - {2 :: nat})) = [3, 1]"
    by (simp add: sorted_list_of_1_3)
  show ?thesis
    by (intro conjI) (rule c1 c2 c3 c4)+
qed

subsection \<open>Unusable responses, validation failure\<close>

text \<open>
  X1. A response with status 200 that cannot be used is not retried and does not count as
  an open tree: when decoding the body raises an exception other than IOError, or the
  decoded body has no \<open>general_state\<close> to read (KeyError on a dict without the key,
  TypeError on anything that is not a dict), the gate raises that exception after its
  first request.
\<close>

theorem IsTreeOpen_undecodable:
  "(urlopen_result env t status_url = Response 200 (Inl e) \<and> e \<noteq> IOError
      \<longrightarrow> IsTreeOpen env t = (Inl e, t @ [Urlopen status_url]))
   \<and> (urlopen_result env t status_url = Response 200 (Inr d)
        \<and> subscript d ''general_state'' = Inl e
      \<longrightarrow> IsTreeOpen env t = (Inl e, t @ [Urlopen status_url]))"
  by (simp add: IsTreeOpen_def py_range_max_attempts Let_def)

theorem IsTreeOpen_undecodable_witness:
  "IsTreeOpen ((env_reporting ''open'')\<lparr>urlopen_result := (\<lambda>t u. Response 200 (Inl ValueError))\<rparr>) []
     = (Inl ValueError, [Urlopen status_url])
   \<and> IsTreeOpen ((env_reporting ''open'')\<lparr>urlopen_result :=
         (\<lambda>t u. Response 200 (Inr (JObj [(''state'', JStr ''open'')])))\<rparr>) []
     = (Inl KeyError, [Urlopen status_url])
   \<and> IsTreeOpen ((env_reporting ''open'')\<lparr>urlopen_result :=
         (\<lambda>t u. Response 200 (Inr (JStr ''open'')))\<rparr>) []
     = (Inl TypeError, [Urlopen status_url])"
  using IsTreeOpen_undecodable
      [of "(env_reporting ''open'')\<lparr>urlopen_result := (\<lambda>t u. Response 200 (Inl ValueError))\<rparr>"
          "[]" ValueError JNull]
    IsTreeOpen_undecodable
      [of "(env_reporting ''open'')\<lparr>urlopen_result :=
             (\<lambda>t u. Response 200 (Inr (JObj [(''state'', JStr ''open'')])))\<rparr>"
          "[]" KeyError "JObj [(''state'', JStr ''open'')]"]
    IsTreeOpen_undecodable
      [of "(env_reporting ''open'')\<lparr>urlopen_result :=
             (\<lambda>t u. Response 200 (Inr (JStr ''open'')))\<rparr>"
          "[]" TypeError "JStr ''open''"]
  by (simp add: subscript_def)

lemma HandleValidationFailure_loop_calls:
  "HandleCouldNotVerify_calls (HandleValidationFailure_loop pool cs t) =
     HandleCouldNotVerify_calls t @ cs"
  by (induction cs arbitrary: t) (simp_all add: HandleCouldNotVerify_calls_def)

text \<open>
  X2. HandleValidationFailure calls HandleCouldNotVerify on every change of the pool, once
  each and in the pool's order.
\<close>

theorem HandleValidationFailure_every_change:
  "HandleCouldNotVerify_calls (HandleValidationFailure pool t) =
     HandleCouldNotVerify_calls t @ changes pool"
proof -
  have "HandleCouldNotVerify_calls (t @ [Info_validation_failed]) = HandleCouldNotVerify_calls t"
    by (simp add: HandleCouldNotVerify_calls_def)
  then show ?thesis
    by (simp add: HandleValidationFailure_def HandleValidationFailure_loop_calls)
qed

subsection \<open>The dry-run flag\<close>

text \<open>
  C8. A pool built with instance flag \<open>d\<close> has the dry-run value \<open>d \<or> GLOBAL_DRYRUN\<close>:
  so when the global flag is set the pool is in dry-run whatever \<open>d\<close> is. The same holds
  for the pool that AcquirePool returns.
\<close>

theorem dryrun_is_instance_or_global:
  "(ValidationPool_init g [d] :: error + 'c ValidationPool) =
     Inr \<lparr>changes = [], gerrit_helper = None, dryrun = (d \<or> g)\<rparr>
   \<and> (ValidationPool_init True [d] :: error + 'c ValidationPool) =
     Inr \<lparr>changes = [], gerrit_helper = None, dryrun = True\<rparr>
   \<and> (\<forall>p. fst (AcquirePool env g branch internal buildroot d t) = Inr p \<longrightarrow> dryrun p = (d \<or> g))"
  by (auto simp: ValidationPool_init_def AcquirePool_def Let_def
      split: prod.splits sum.splits bool.splits)

theorem dryrun_is_instance_or_global_witness:
  "fst (AcquirePool (env_reporting ''open'') True ''master'' False ''/b'' False []) =
     Inr \<lparr>changes = [1, 2, 3], gerrit_helper = Some (GerritHelper False), dryrun = True\<rparr>
   \<and> dryrun \<lparr>changes = [1, 2, 3], gerrit_helper = Some (GerritHelper False), dryrun = True\<rparr>
       = (False \<or> True)"
proof -
  have run: "fst (AcquirePool (env_reporting ''open'') True ''master'' False ''/b'' False []) =
     Inr \<lparr>changes = [1, 2, 3], gerrit_helper = Some (GerritHelper False), dryrun = True\<rparr>"
    by (simp add: AcquirePool_def IsTreeOpen_def env_reporting_def status_page_def
        py_range_def max_attempts_def upt_conv_Cons subscript_def ValidationPool_init_def
        Let_def)
  show ?thesis
    using run dryrun_is_instance_or_global
      [of True False "env_reporting ''open''" "''master''" False "''/b''" "[]"]
    by simp
qed

end
